theory Spec2Isabelle
  imports Main
begin

section \<open>Characters and the string library\<close>

text \<open>
  A \<open>std::string\<close> is a \<^typ>\<open>string\<close> (a list of 8-bit characters). The characters that
  have no printable literal are named here.
\<close>

abbreviation LF :: char where "LF \<equiv> CHR 0x0A"
abbreviation TAB :: char where "TAB \<equiv> CHR 0x09"
abbreviation CR :: char where "CR \<equiv> CHR 0x0D"
abbreviation DQ :: char where "DQ \<equiv> CHR 0x22"

text \<open>\<open>IniParser::reserved\<close>.\<close>

definition reserved :: "char \<Rightarrow> bool" where
  "reserved c =
     (if (c = CHR ''['') \<or> (c = CHR '']'') \<or> (c = CHR ''='') \<or> (c = CHR '';'') \<or> (c = LF)
      then True else False)"

text \<open>
  \<open>std::string::find_first_not_of\<close>, \<open>find_last_not_of\<close> and \<open>substr\<close>; \<open>None\<close> is
  \<open>std::string::npos\<close>. \<open>substr\<close> is only called with a position inside the string.
\<close>

fun find_first_not_of :: "string \<Rightarrow> string \<Rightarrow> nat option" where
  "find_first_not_of [] chars = None"
| "find_first_not_of (c # cs) chars =
     (if c \<in> set chars then map_option Suc (find_first_not_of cs chars) else Some 0)"

definition find_last_not_of :: "string \<Rightarrow> string \<Rightarrow> nat option" where
  "find_last_not_of str chars =
     map_option (\<lambda>j. length str - 1 - j) (find_first_not_of (rev str) chars)"

definition substr :: "string \<Rightarrow> nat \<Rightarrow> nat \<Rightarrow> string" where
  "substr str pos n = take n (drop pos str)"

text \<open>The character set \<open>" \t\n\r"\<close> of \<open>IniParser::trimWS\<close>.\<close>

definition whitespace :: string where
  "whitespace = [CHR '' '', TAB, LF, CR]"

text \<open>\<open>IniParser::trimWS\<close>.\<close>

definition trimWS :: "string \<Rightarrow> string" where
  "trimWS str =
     (case (find_first_not_of str whitespace, find_last_not_of str whitespace) of
        (Some ifirst, Some ilast) \<Rightarrow> substr str ifirst (ilast - ifirst + 1)
      | _ \<Rightarrow> [])"

text \<open>
  \<open>std::to_string\<close> on an \<open>int\<close>: the decimal digits, with a minus sign for a negative
  number.
\<close>

fun digits :: "nat \<Rightarrow> string" where
  "digits n =
     (if n < 10 then [''0123456789'' ! n]
      else digits (n div 10) @ [''0123456789'' ! (n mod 10)])"

declare digits.simps [simp del]

definition to_string :: "int \<Rightarrow> string" where
  "to_string n = (if n < 0 then CHR ''-'' # digits (nat (- n)) else digits (nat n))"


section \<open>The input stream\<close>

text \<open>
  The \<open>std::ifstream in\<close>, as far as the tokenizer observes it: the characters not yet
  read and the \<open>eofbit\<close>. \<open>peek()\<close> returns the head of \<open>unread\<close> and sets \<open>eofbit\<close> when
  nothing is left; \<open>get()\<close> removes the head; \<open>eof()\<close> reads \<open>eofbit\<close>. The tokenizer calls
  \<open>get()\<close> only after a \<open>peek()\<close> that found a character, so \<open>failbit\<close> is never set while
  reading.
\<close>

record ifstream =
  unread :: string
  eofbit :: bool

text \<open>
  The \<open>while\<close> loop of \<open>IniParser::getToken\<close>, entered at its test: the second argument is
  the unread input after the latest \<open>peek()\<close>, its head is \<open>peeked\<close>, and it is empty exactly
  when that \<open>peek()\<close> hit the end of the stream and set \<open>eofbit\<close>.
\<close>

fun getToken_while :: "string \<Rightarrow> string \<Rightarrow> string \<times> ifstream" where
  "getToken_while t [] = (t, \<lparr>unread = [], eofbit = True\<rparr>)"
| "getToken_while t (peeked # rest) =
     (if \<not> reserved peeked then getToken_while (t @ [peeked]) rest
      else (t, \<lparr>unread = peeked # rest, eofbit = False\<rparr>))"

text \<open>
  \<open>IniParser::getToken\<close>. The literal \<open>"\0"\<close> returned at the end of the stream is the
  empty \<open>std::string\<close>: the constructor from a C string stops at the first NUL.
\<close>

definition getToken :: "ifstream \<Rightarrow> string \<times> ifstream" where
  "getToken s =
     (case unread s of
        [] \<Rightarrow> ([], s\<lparr>eofbit := True\<rparr>)
      | peeked # rest \<Rightarrow>
          (let (t, s') = (if reserved peeked then ([peeked], s\<lparr>unread := rest\<rparr>)
                          else getToken_while [] (peeked # rest))
           in if t = [LF] then (t, s') else (trimWS t, s')))"

lemma getToken_while_measure:
  "getToken_while t cs = (t', s') \<Longrightarrow> eofbit s' \<or> length (unread s') \<le> length cs"
  by (induction cs arbitrary: t) (auto split: if_splits)

text \<open>
  The \<open>while( !in.eof() )\<close> loop of \<open>IniParser::read\<close>, appending to the member \<open>tokens\<close>.
  The comparison \<open>token == "\0"\<close> is a comparison with the empty string.
\<close>

function read_loop :: "ifstream \<Rightarrow> string list \<Rightarrow> string list" where
  "read_loop s toks =
     (if \<not> eofbit s
      then (let (token, s') = getToken s
            in read_loop s' (if \<not> (token = []) then toks @ [token] else toks))
      else toks)"
  by pat_completeness auto
termination
proof (relation "measure (\<lambda>(s, toks). if eofbit s then 0 else Suc (length (unread s)))")
  show "wf (measure (\<lambda>(s, toks). if eofbit s then 0 else Suc (length (unread s))))" by simp
next
  fix s :: ifstream and toks :: "string list" and x token s'
  assume a: "\<not> eofbit s" "x = getToken s" "(token, s') = x"
  then have g: "getToken s = (token, s')" by simp
  show "((s', if \<not> (token = []) then toks @ [token] else toks), s, toks)
        \<in> measure (\<lambda>(s, toks). if eofbit s then 0 else Suc (length (unread s)))"
  proof (cases "unread s")
    case Nil
    with g a(1) show ?thesis by (auto simp: getToken_def)
  next
    case (Cons c cs)
    show ?thesis
    proof (cases "reserved c")
      case True
      with g Cons a(1) show ?thesis
        by (auto simp: getToken_def Let_def split: if_splits)
    next
      case False
      obtain t1 s1 where w: "getToken_while [c] cs = (t1, s1)" by force
      from getToken_while_measure[OF w] have "eofbit s1 \<or> length (unread s1) \<le> length cs" .
      moreover from g Cons False w have "s' = s1"
        by (auto simp: getToken_def Let_def split: if_splits)
      ultimately show ?thesis using Cons a(1) by auto
    qed
  qed
qed

declare read_loop.simps [simp del]


section \<open>The parser object\<close>

text \<open>
  The configuration store \<open>std::map<std::string, std::map<std::string, std::string>>\<close>.
\<close>

type_synonym store = "string \<rightharpoonup> (string \<rightharpoonup> string)"

text \<open>
  The members of \<open>class IniParser\<close>. The stream \<open>in\<close> is opened and closed inside \<open>read\<close>;
  what it carries from one call to the next is its \<open>failbit\<close>, set by an \<open>open\<close> that
  failed and never cleared.
\<close>

record IniParser =
  internal :: store
  fileName :: string
  in_fail :: bool
  tokens :: "string list"

text \<open>
  What a call can throw. \<open>IosFailure\<close> is the \<open>std::ios_base::failure\<close> that
  \<open>in.exceptions(failbit | badbit)\<close> throws, outside the \<open>try\<close> block of \<open>read\<close>, when
  \<open>failbit\<close> is already set. \<open>OutOfBounds\<close> marks \<open>std::vector::operator[]\<close> applied to an
  index that is not below \<open>size()\<close>: C++ leaves the behaviour undefined there, and the
  model stops with this value.
\<close>

datatype exn = FileNotFound | SyntaxError string | IosFailure | OutOfBounds

text \<open>
  A call either returns normally with the new object state (\<open>Inr\<close>) or throws, leaving
  the object in the state it had at the \<open>throw\<close> (\<open>Inl\<close>).
\<close>

type_synonym outcome = "exn \<times> IniParser + IniParser"

text \<open>The constructor \<open>IniParser(std::string fileName)\<close>.\<close>

definition IniParser_new :: "string \<Rightarrow> IniParser" where
  "IniParser_new name =
     \<lparr>internal = Map.empty, fileName = name, in_fail = False, tokens = []\<rparr>"

text \<open>\<open>IniParser::clear\<close>.\<close>

definition clear :: "IniParser \<Rightarrow> IniParser" where
  "clear p = p\<lparr>internal := Map.empty\<rparr>"

text \<open>
  \<open>IniParser::operator[]\<close>: \<open>internal[section]\<close> inserts an empty section when there is
  none and returns a reference to the section's map.
\<close>

definition section_at :: "IniParser \<Rightarrow> string \<Rightarrow> (string \<rightharpoonup> string) \<times> IniParser" where
  "section_at p sec =
     (case internal p sec of
        None \<Rightarrow> (Map.empty, p\<lparr>internal := (internal p)(sec \<mapsto> Map.empty)\<rparr>)
      | Some kv \<Rightarrow> (kv, p))"

text \<open>
  The caller's \<open>parser[section][key]\<close>, read as a value: \<open>std::map::operator[]\<close> on the
  section's map inserts the empty string when the key is absent.
\<close>

definition get :: "IniParser \<Rightarrow> string \<Rightarrow> string \<Rightarrow> string \<times> IniParser" where
  "get p sec key =
     (let (kv, p') = section_at p sec in
      case kv key of
        None \<Rightarrow> ([], p'\<lparr>internal := (internal p')(sec \<mapsto> kv(key \<mapsto> []))\<rparr>)
      | Some v \<Rightarrow> (v, p'))"

text \<open>The statement \<open>internal[curSection][key] = value\<close>.\<close>

definition assign :: "store \<Rightarrow> string \<Rightarrow> string \<Rightarrow> string \<Rightarrow> store" where
  "assign m sec key v =
     m(sec \<mapsto> (case m sec of None \<Rightarrow> Map.empty | Some kv \<Rightarrow> kv)(key \<mapsto> v))"

text \<open>\<open>tokens[i]\<close> for an \<open>int\<close> index.\<close>

definition at :: "string list \<Rightarrow> int \<Rightarrow> string option" where
  "at v i = (if 0 \<le> i \<and> i < int (length v) then Some (v ! nat i) else None)"

text \<open>\<open>IniParser::isIdent\<close>.\<close>

definition isIdent :: "string \<Rightarrow> bool" where
  "isIdent str = (if length str = 1 \<and> reserved (str ! 0) then False else True)"


section \<open>The grammar parser\<close>

text \<open>
  The local variables of \<open>IniParser::parse\<close> other than the loop index. The \<open>int\<close>
  variables \<open>state\<close>, \<open>i\<close> and \<open>lineNumber\<close> are unbounded integers here; they agree with the
  32-bit ones as long as the token vector has fewer than \<open>2^31\<close> elements.
\<close>

record locals =
  curSection :: string
  state :: int
  lineNumber :: int

text \<open>The common start of both error messages.\<close>

definition message_head :: "string \<Rightarrow> int \<Rightarrow> string" where
  "message_head name line =
     ''Syntax error on file '' @ [DQ] @ name @ [DQ] @ '' at line '' @ to_string line
       @ ''.'' @ [LF] @ ''...''"

text \<open>The message built in the final \<open>else\<close> branch of the loop body.\<close>

definition loop_message :: "string \<Rightarrow> string list \<Rightarrow> int \<Rightarrow> string \<Rightarrow> int \<Rightarrow> string option" where
  "loop_message name toks i token line =
     (case (if i - 1 \<ge> 0 then at toks (i - 1) else Some []) of
        None \<Rightarrow> None
      | Some prev \<Rightarrow>
          (case (if i + 1 < int (length toks) then at toks (i + 1) else Some []) of
             None \<Rightarrow> None
           | Some nxt \<Rightarrow>
               Some (message_head name line @ prev @ '' ->''
                      @ (if token \<noteq> [LF] then token else ''LF'') @ ''<- '' @ nxt @ ''...'')))"

text \<open>
  One iteration of the \<open>for\<close> loop of \<open>IniParser::parse\<close> at index \<open>i\<close>: the new locals and
  store, or the exception thrown.
\<close>

definition parse_body ::
  "string \<Rightarrow> string list \<Rightarrow> int \<Rightarrow> locals \<times> store \<Rightarrow> exn + locals \<times> store" where
  "parse_body name toks i = (\<lambda>(l, m).
     case at toks i of
       None \<Rightarrow> Inl OutOfBounds
     | Some token \<Rightarrow>
        if state l = 0 \<and> token = ''['' then Inr (l\<lparr>state := 1\<rparr>, m)
        else if state l = 1 \<and> isIdent token then Inr (l\<lparr>state := 2\<rparr>, m)
        else if state l = 2 \<and> token = '']'' then
          (case at toks (i - 1) of
             None \<Rightarrow> Inl OutOfBounds
           | Some name' \<Rightarrow> Inr (l\<lparr>state := 0, curSection := name'\<rparr>, m))
        else if state l = 0 \<and> isIdent token then Inr (l\<lparr>state := 3\<rparr>, m)
        else if state l = 3 \<and> token = ''='' then Inr (l\<lparr>state := 4\<rparr>, m)
        else if state l = 4 \<and> isIdent token then
          (case at toks (i - 2) of
             None \<Rightarrow> Inl OutOfBounds
           | Some key \<Rightarrow> Inr (l\<lparr>state := 0\<rparr>, assign m (curSection l) key token))
        else if state l = 4 \<and> token = [LF] then
          (case at toks (i - 2) of
             None \<Rightarrow> Inl OutOfBounds
           | Some key \<Rightarrow>
               Inr (l\<lparr>state := 0, lineNumber := lineNumber l + 1\<rparr>,
                    assign m (curSection l) key []))
        else if state l = 0 \<and> token = '';'' then Inr (l\<lparr>state := 5\<rparr>, m)
        else if state l = 5 \<and> isIdent token then Inr (l\<lparr>state := 0\<rparr>, m)
        else if state l = 0 \<and> token = [LF] then
          Inr (l\<lparr>state := 0, lineNumber := lineNumber l + 1\<rparr>, m)
        else
          (case loop_message name toks i token (lineNumber l) of
             None \<Rightarrow> Inl OutOfBounds
           | Some message \<Rightarrow> Inl (SyntaxError message)))"

text \<open>
  The \<open>for\<close> loop from index \<open>i\<close> on. It returns the final index with the locals and the
  store, or the exception with the store as it was at the \<open>throw\<close>.
\<close>

function parse_loop ::
  "string \<Rightarrow> string list \<Rightarrow> int \<Rightarrow> locals \<times> store \<Rightarrow> exn \<times> store + int \<times> locals \<times> store" where
  "parse_loop name toks i lm =
     (if i < int (length toks)
      then (case parse_body name toks i lm of
              Inl e \<Rightarrow> Inl (e, snd lm)
            | Inr lm' \<Rightarrow> parse_loop name toks (i + 1) lm')
      else Inr (i, lm))"
  by pat_completeness auto
termination
  by (relation "measure (\<lambda>(name, toks, i, lm). nat (int (length toks) - i))") auto

declare parse_loop.simps [simp del]

text \<open>
  The check after the loop. Its message reads \<open>tokens[i - 1]\<close> and \<open>tokens[i]\<close> with the
  index the loop ended at.
\<close>

definition eof_message :: "string \<Rightarrow> string list \<Rightarrow> int \<Rightarrow> int \<Rightarrow> string option" where
  "eof_message name toks i line =
     (case (if i - 1 \<ge> 0 then at toks (i - 1) else Some []) of
        None \<Rightarrow> None
      | Some prev \<Rightarrow>
          (case at toks i of
             None \<Rightarrow> None
           | Some token \<Rightarrow>
               Some (message_head name line @ prev @ '' ->''
                      @ (if token \<noteq> [LF] then token else ''LF'') @ ''<- EOF'')))"

text \<open>\<open>IniParser::parse\<close>.\<close>

definition parse :: "IniParser \<Rightarrow> outcome" where
  "parse p =
     (case parse_loop (fileName p) (tokens p) 0
             (\<lparr>curSection = [], state = 0, lineNumber = 1\<rparr>, internal p) of
        Inl (e, m) \<Rightarrow> Inl (e, p\<lparr>internal := m\<rparr>)
      | Inr (i, l, m) \<Rightarrow>
          if state l \<noteq> 0 then
            (case eof_message (fileName p) (tokens p) i (lineNumber l) of
               None \<Rightarrow> Inl (OutOfBounds, p\<lparr>internal := m\<rparr>)
             | Some message \<Rightarrow> Inl (SyntaxError message, p\<lparr>internal := m\<rparr>))
          else Inr (p\<lparr>internal := m\<rparr>))"

text \<open>
  \<open>IniParser::read\<close>. The first argument is what opening \<open>fileName\<close> gives: the contents
  of the file, or \<open>None\<close> when it cannot be opened. A failed \<open>open\<close> sets \<open>failbit\<close> before
  the exception is thrown and caught.
\<close>

definition read :: "string option \<Rightarrow> IniParser \<Rightarrow> outcome" where
  "read file p =
     (if in_fail p then Inl (IosFailure, p)
      else
        (case file of
           None \<Rightarrow> Inl (FileNotFound, p\<lparr>in_fail := True\<rparr>)
         | Some content \<Rightarrow>
             parse (p\<lparr>tokens := read_loop \<lparr>unread = content, eofbit = False\<rparr> (tokens p)\<rparr>)))"


section \<open>Predicates and the specification's grammar\<close>

text \<open>
  What a token may look like: one of the five reserved one-character strings, or a
  string without reserved characters that neither starts nor ends with one of the
  characters \<open>trimWS\<close> removes (the empty string included).
\<close>

definition token_shape :: "string \<Rightarrow> bool" where
  "token_shape t \<longleftrightarrow>
     t \<in> {''['', '']'', ''='', '';'', [LF]}
     \<or> (list_all (\<lambda>c. \<not> reserved c) t
        \<and> (t = [] \<or> (hd t \<notin> set whitespace \<and> last t \<notin> set whitespace)))"


text \<open>
  The lines of the grammar in section 6 of the specification. The flag of a section
  header or a comment says whether the optional newline is there; the value of an
  assignment is optional.
\<close>

datatype line =
  SectionHeader string bool
  | Assignment string "string option"
  | Comment string bool
  | Blank








text \<open>The number of newline tokens among the first \<open>j\<close> tokens.\<close>

definition newlines_before :: "string list \<Rightarrow> nat \<Rightarrow> nat" where
  "newlines_before toks j = length (filter (\<lambda>t. t = [LF]) (take j toks))"



text \<open>Shorthands for the character classes and for the tokens that \<open>read\<close> keeps.\<close>

abbreviation isws :: "char \<Rightarrow> bool" where "isws c \<equiv> c \<in> set whitespace"

abbreviation nonreserved :: "char \<Rightarrow> bool" where "nonreserved c \<equiv> \<not> reserved c"



section \<open>Running the code on concrete inputs\<close>

lemmas tokenizer_defs =
  read_loop.simps getToken_def reserved_def trimWS_def find_last_not_of_def substr_def
  whitespace_def

lemmas parser_defs =
  parse_def parse_loop.simps parse_body_def at_def isIdent_def reserved_def assign_def
  loop_message_def eof_message_def message_head_def to_string_def digits.simps

lemmas object_defs = read_def IniParser_new_def clear_def get_def section_at_def


section \<open>A section header and an assignment\<close>

text \<open>
  Claim C1. On the input \<open>[a]\<close>, newline, \<open>b=c\<close>, newline, the tokenizer loop of \<open>read\<close>
  produces exactly the tokens \<open>[\<close>, \<open>a\<close>, \<open>]\<close>, newline, \<open>b\<close>, \<open>=\<close>, \<open>c\<close>, newline; \<open>parse\<close>
  on that token sequence returns normally with the store that maps section \<open>a\<close> to the
  single pair \<open>b\<close> to \<open>c\<close> and has no other section; and \<open>read\<close> as a whole does both.
\<close>

theorem C1_section_and_assignment:
  "read_loop \<lparr>unread = ''[a]'' @ [LF] @ ''b=c'' @ [LF], eofbit = False\<rparr> []
     = [''['', ''a'', '']'', [LF], ''b'', ''='', ''c'', [LF]]
   \<and> parse \<lparr>internal = Map.empty, fileName = name,
             in_fail = False, tokens = [''['', ''a'', '']'', [LF], ''b'', ''='', ''c'', [LF]]\<rparr>
     = Inr \<lparr>internal = [''a'' \<mapsto> [''b'' \<mapsto> ''c'']], fileName = name,
            in_fail = False, tokens = [''['', ''a'', '']'', [LF], ''b'', ''='', ''c'', [LF]]\<rparr>
   \<and> read (Some (''[a]'' @ [LF] @ ''b=c'' @ [LF])) (IniParser_new name)
     = Inr \<lparr>internal = [''a'' \<mapsto> [''b'' \<mapsto> ''c'']], fileName = name,
            in_fail = False, tokens = [''['', ''a'', '']'', [LF], ''b'', ''='', ''c'', [LF]]\<rparr>"
proof (intro conjI)
  show "read_loop \<lparr>unread = ''[a]'' @ [LF] @ ''b=c'' @ [LF], eofbit = False\<rparr> []
     = [''['', ''a'', '']'', [LF], ''b'', ''='', ''c'', [LF]]"
    by (simp add: tokenizer_defs)
  show "parse \<lparr>internal = Map.empty, fileName = name,
             in_fail = False, tokens = [''['', ''a'', '']'', [LF], ''b'', ''='', ''c'', [LF]]\<rparr>
     = Inr \<lparr>internal = [''a'' \<mapsto> [''b'' \<mapsto> ''c'']], fileName = name,
            in_fail = False, tokens = [''['', ''a'', '']'', [LF], ''b'', ''='', ''c'', [LF]]\<rparr>"
    by (simp add: parser_defs)
  show "read (Some (''[a]'' @ [LF] @ ''b=c'' @ [LF])) (IniParser_new name)
     = Inr \<lparr>internal = [''a'' \<mapsto> [''b'' \<mapsto> ''c'']], fileName = name,
            in_fail = False, tokens = [''['', ''a'', '']'', [LF], ''b'', ''='', ''c'', [LF]]\<rparr>"
    by (simp add: object_defs tokenizer_defs parser_defs)
qed


section \<open>An assignment with an empty value before any section header\<close>

text \<open>
  Claim C6. Reading the input \<open>k=\<close>, newline, with a freshly constructed parser returns
  normally, and the store holds exactly one entry: section \<open>""\<close> (the initial value of
  \<open>curSection\<close>), key \<open>k\<close>, value \<open>""\<close>.
\<close>

theorem C6_empty_value_default_section:
  "read (Some (''k='' @ [LF])) (IniParser_new name)
     = Inr \<lparr>internal = ['''' \<mapsto> [''k'' \<mapsto> '''']], fileName = name,
            in_fail = False, tokens = [''k'', ''='', [LF]]\<rparr>"
  by (simp add: object_defs tokenizer_defs parser_defs)


section \<open>The identifier check\<close>

lemma reserved_iff:
  "reserved c \<longleftrightarrow> c = CHR ''['' \<or> c = CHR '']'' \<or> c = CHR ''='' \<or> c = CHR '';'' \<or> c = LF"
  by (simp add: reserved_def)


text \<open>
  Claim C7. For every string \<open>s\<close>, \<open>isIdent s\<close> is false exactly when \<open>s\<close> has length one
  and its character is one of \<open>[\<close>, \<open>]\<close>, \<open>=\<close>, \<open>;\<close>, newline; the empty string and every
  string of length two or more are accepted.
\<close>

theorem C7_isIdent_characterisation:
  "(\<not> isIdent s \<longleftrightarrow>
      length s = 1 \<and> s ! 0 \<in> {CHR ''['', CHR '']'', CHR ''='', CHR '';'', LF})
   \<and> isIdent [] \<and> (2 \<le> length s \<longrightarrow> isIdent s)"
  by (auto simp: isIdent_def reserved_iff)

theorem C7_isIdent_witness:
  "2 \<le> length ''ab'' \<and> isIdent ''ab'' \<and> \<not> isIdent '']'' \<and> isIdent ''''"
  using C7_isIdent_characterisation [of "''ab''"] C7_isIdent_characterisation [of "'']''"]
  by simp


section \<open>The tokenizer\<close>

subsection \<open>Trimming\<close>

lemma find_first_not_of_eq:
  "find_first_not_of s chars =
     (if dropWhile (\<lambda>c. c \<in> set chars) s = [] then None
      else Some (length (takeWhile (\<lambda>c. c \<in> set chars) s)))"
  by (induction s) auto

lemma trimWS_blank:
  assumes blank: "dropWhile isws s = []"
  shows "trimWS s = rev (dropWhile isws (rev (dropWhile isws s)))"
proof -
  have r: "rev (dropWhile isws (rev (dropWhile isws s))) = []" unfolding blank by simp
  have t: "trimWS s = []" using blank by (simp add: trimWS_def find_first_not_of_eq)
  show ?thesis by (simp only: r t)
qed

lemma trimWS_nonblank:
  assumes nonblank: "dropWhile isws s \<noteq> []"
  shows "trimWS s = rev (dropWhile isws (rev (dropWhile isws s)))"
proof -
  define a where "a = takeWhile isws s"
  define d where "d = dropWhile isws s"
  define b where "b = length (takeWhile isws (rev d))"
  have s: "s = a @ d" by (simp add: a_def d_def)
  have dne: "d \<noteq> []" using nonblank by (simp add: d_def)
  have hd: "\<not> isws (hd d)" unfolding d_def using nonblank by (rule hd_dropWhile)
  have hdin: "hd d \<in> set (rev d)" using dne by simp
  have tw: "takeWhile isws (rev s) = takeWhile isws (rev d)"
    unfolding s rev_append using hdin hd by (rule takeWhile_append1)
  have dwne: "dropWhile isws (rev s) \<noteq> []"
    using hdin hd by (auto simp: s dropWhile_eq_Nil_conv)
  have blt: "b < length d"
  proof -
    have "dropWhile isws (rev d) \<noteq> []"
      using hdin hd by (auto simp: dropWhile_eq_Nil_conv)
    then have "0 < length (dropWhile isws (rev d))" by simp
    moreover have "length (takeWhile isws (rev d) @ dropWhile isws (rev d)) = length d"
      by simp
    then have "length (takeWhile isws (rev d)) + length (dropWhile isws (rev d)) = length d"
      by (simp only: length_append)
    ultimately show ?thesis unfolding b_def by linarith
  qed
  have ff: "find_first_not_of s whitespace = Some (length a)"
    using nonblank by (simp add: find_first_not_of_eq a_def)
  have fl: "find_last_not_of s whitespace = Some (length s - 1 - b)"
    using dwne by (simp add: find_last_not_of_def find_first_not_of_eq tw b_def)
  have len: "Suc (length s - Suc (b + length a)) = length d - b"
    using blt by (simp add: s)
  have "trimWS s = take (length d - b) (drop (length a) s)"
    by (simp add: trimWS_def ff fl substr_def len)
  also have "drop (length a) s = d" by (simp add: s)
  also have "take (length d - b) d = rev (drop b (rev d))"
    by (simp add: rev_drop)
  also have "drop b (rev d) = dropWhile isws (rev d)"
    unfolding b_def by (rule dropWhile_eq_drop[symmetric])
  finally show ?thesis by (simp add: d_def)
qed

lemma trimWS_eq: "trimWS s = rev (dropWhile isws (rev (dropWhile isws s)))"
  using trimWS_blank trimWS_nonblank by blast

lemma set_trimWS: "set (trimWS s) \<subseteq> set s"
  by (auto simp: trimWS_eq dest!: set_dropWhileD)

lemma trimWS_ends:
  assumes "trimWS s \<noteq> []"
  shows "\<not> isws (hd (trimWS s))" and "\<not> isws (last (trimWS s))"
proof -
  define d where "d = dropWhile isws s"
  define e where "e = dropWhile isws (rev d)"
  have t: "trimWS s = rev e" by (simp add: trimWS_eq d_def e_def)
  have ene: "e \<noteq> []" using assms t by simp
  then have dne: "d \<noteq> []" by (auto simp: e_def)
  have "\<not> isws (hd e)" unfolding e_def using ene[unfolded e_def] by (rule hd_dropWhile)
  then show "\<not> isws (last (trimWS s))" using ene by (simp add: t last_rev)
  have "rev d = takeWhile isws (rev d) @ e" by (simp add: e_def)
  then have "last (rev d) = last e" using ene by (metis last_appendR)
  then have "last e = hd d" using dne by (simp add: last_rev)
  moreover have "\<not> isws (hd d)" unfolding d_def using dne[unfolded d_def] by (rule hd_dropWhile)
  ultimately show "\<not> isws (hd (trimWS s))" using ene by (simp add: t hd_rev)
qed

lemma trimWS_all_whitespace: "set s \<subseteq> set whitespace \<Longrightarrow> trimWS s = []"
  by (simp add: trimWS_eq dropWhile_eq_Nil_conv[THEN iffD2] subsetD)

lemma trimWS_symbol: "reserved c \<Longrightarrow> c \<noteq> LF \<Longrightarrow> trimWS [c] = [c]"
  by (auto simp: reserved_iff trimWS_def find_last_not_of_def substr_def whitespace_def)

subsection \<open>One token\<close>

lemma getToken_while_eq:
  "getToken_while t cs =
     (t @ takeWhile nonreserved cs,
      \<lparr>unread = dropWhile nonreserved cs, eofbit = (dropWhile nonreserved cs = [])\<rparr>)"
  by (induction cs arbitrary: t) auto

lemma getToken_end:
  "unread s = [] \<Longrightarrow> getToken s = ([], s\<lparr>eofbit := True\<rparr>)"
  by (simp add: getToken_def)

lemma getToken_symbol:
  assumes "unread s = c # cs" and "reserved c"
  shows "getToken s = ([c], s\<lparr>unread := cs\<rparr>)"
  using assms by (cases "c = LF") (simp_all add: getToken_def trimWS_symbol)

lemma getToken_run:
  assumes "unread s = c # cs" and "\<not> reserved c"
  shows "getToken s =
           (trimWS (c # takeWhile nonreserved cs),
            \<lparr>unread = dropWhile nonreserved cs, eofbit = (dropWhile nonreserved cs = [])\<rparr>)"
proof -
  have "c \<noteq> LF"
    using assms(2) by (auto simp: reserved_iff)
  then show ?thesis
    using assms by (simp add: getToken_def getToken_while_eq)
qed

subsection \<open>The token sequence\<close>

lemma read_loop_at_end: "read_loop \<lparr>unread = [], eofbit = e\<rparr> toks = toks"
  by (simp add: read_loop.simps getToken_def)


lemma read_loop_run:
  assumes "\<not> reserved c"
  shows "read_loop \<lparr>unread = c # cs, eofbit = False\<rparr> toks
     = read_loop \<lparr>unread = dropWhile nonreserved cs, eofbit = False\<rparr>
         (if trimWS (c # takeWhile nonreserved cs) \<noteq> []
          then toks @ [trimWS (c # takeWhile nonreserved cs)] else toks)"
proof -
  let ?toks' = "if trimWS (c # takeWhile nonreserved cs) \<noteq> []
          then toks @ [trimWS (c # takeWhile nonreserved cs)] else toks"
  have "read_loop \<lparr>unread = c # cs, eofbit = False\<rparr> toks
     = read_loop \<lparr>unread = dropWhile nonreserved cs,
                  eofbit = (dropWhile nonreserved cs = [])\<rparr> ?toks'"
    by (subst read_loop.simps) (simp add: getToken_run[OF _ assms])
  also have "\<dots> = read_loop \<lparr>unread = dropWhile nonreserved cs, eofbit = False\<rparr> ?toks'"
    by (cases "dropWhile nonreserved cs = []") (simp_all only: read_loop_at_end)
  finally show ?thesis .
qed


lemma read_loop_no_empty_token:
  "[] \<notin> set toks \<Longrightarrow> [] \<notin> set (read_loop s toks)"
proof (induction s toks rule: read_loop.induct)
  case (1 s toks)
  show ?case
  proof (cases "eofbit s")
    case True
    with "1.prems" show ?thesis by (simp add: read_loop.simps)
  next
    case False
    obtain token s' where g: "getToken s = (token, s')" by force
    have "[] \<notin> set (if \<not> (token = []) then toks @ [token] else toks)"
      using "1.prems" by simp
    with "1.IH"[OF False g[symmetric] refl] False g show ?thesis
      by (simp add: read_loop.simps[of s toks])
  qed
qed

lemma token_shape_getToken: "token_shape (fst (getToken s))"
proof (cases "unread s")
  case Nil
  then show ?thesis by (simp add: getToken_end token_shape_def)
next
  case (Cons c cs)
  show ?thesis
  proof (cases "reserved c")
    case True
    with Cons show ?thesis
      by (auto simp: getToken_symbol token_shape_def reserved_iff)
  next
    case False
    let ?t = "trimWS (c # takeWhile nonreserved cs)"
    have "set ?t \<subseteq> set (c # takeWhile nonreserved cs)" by (rule set_trimWS)
    then have "\<forall>x\<in>set ?t. \<not> reserved x"
      using False by (auto dest: set_takeWhileD)
    then have "list_all nonreserved ?t" by (simp add: list_all_iff)
    moreover have "?t = [] \<or> (\<not> isws (hd ?t) \<and> \<not> isws (last ?t))"
      using trimWS_ends[of "c # takeWhile nonreserved cs"] by blast
    ultimately show ?thesis
      using Cons False by (simp add: getToken_run token_shape_def)
  qed
qed

lemma token_shape_read_loop:
  "list_all token_shape toks \<Longrightarrow> list_all token_shape (read_loop s toks)"
proof (induction s toks rule: read_loop.induct)
  case (1 s toks)
  show ?case
  proof (cases "eofbit s")
    case True
    with "1.prems" show ?thesis by (simp add: read_loop.simps)
  next
    case False
    obtain token s' where g: "getToken s = (token, s')" by force
    have "token_shape token" using token_shape_getToken[of s] g by simp
    then have "list_all token_shape (if \<not> (token = []) then toks @ [token] else toks)"
      using "1.prems" by simp
    with "1.IH"[OF False g[symmetric] refl] False g show ?thesis
      by (simp add: read_loop.simps[of s toks])
  qed
qed


section \<open>The shape of tokens\<close>

text \<open>
  Claim C10. Every token that \<open>getToken\<close> returns, and so every token that the loop of
  \<open>read\<close> puts into the token sequence, is one of the five reserved one-character
  strings, or a possibly empty string that contains no reserved character and neither
  starts nor ends with a space, a tab, a newline or a carriage return.
\<close>

theorem C10_token_shape:
  "token_shape (fst (getToken s)) \<and> list_all token_shape (read_loop s [])"
  using token_shape_getToken [of s] token_shape_read_loop [of "[]" s] by simp

theorem C10_token_shape_witness:
  "fst (getToken \<lparr>unread = '' a b = c'', eofbit = False\<rparr>) = ''a b'' \<and> token_shape ''a b''"
  using C10_token_shape [of "\<lparr>unread = '' a b = c'', eofbit = False\<rparr>"]
  by (simp add: tokenizer_defs)


section \<open>Runs of whitespace\<close>

text \<open>
  Claim C8, as the code has it. A run of spaces, tabs and carriage returns that ends at
  a reserved character or at the end of the stream makes \<open>getToken\<close> return the empty
  string, and the loop of \<open>read\<close> does not append that string: the token sequence goes on
  as if the run were not there. A token sequence that \<open>read\<close> builds from no tokens never
  contains the empty string.
\<close>

theorem C8_whitespace_run_dropped:
  assumes "ws \<noteq> []" and "set ws \<subseteq> {CHR '' '', TAB, CR}"
    and "rest = [] \<or> reserved (hd rest)"
  shows "getToken \<lparr>unread = ws @ rest, eofbit = False\<rparr>
           = ([], \<lparr>unread = rest, eofbit = (rest = [])\<rparr>)
         \<and> read_loop \<lparr>unread = ws @ rest, eofbit = False\<rparr> toks
           = read_loop \<lparr>unread = rest, eofbit = False\<rparr> toks
         \<and> [] \<notin> set (read_loop \<lparr>unread = input, eofbit = False\<rparr> [])"
proof -
  obtain c cs where ws: "ws = c # cs" using assms(1) by (cases ws) auto
  have c: "\<not> reserved c"
    using assms(2) by (auto simp: ws reserved_iff)
  have run: "takeWhile nonreserved (cs @ rest) = cs"
    and after: "dropWhile nonreserved (cs @ rest) = rest"
    using assms(2,3) by (cases rest; auto simp: ws reserved_iff takeWhile_append dropWhile_append)+
  have trim: "trimWS ws = []"
    using assms(2) by (intro trimWS_all_whitespace) (auto simp: whitespace_def)
  have g: "getToken \<lparr>unread = ws @ rest, eofbit = False\<rparr>
           = ([], \<lparr>unread = rest, eofbit = (rest = [])\<rparr>)"
    using getToken_run [of "\<lparr>unread = ws @ rest, eofbit = False\<rparr>" c "cs @ rest"] c trim
    by (simp add: ws run after)
  have "read_loop \<lparr>unread = ws @ rest, eofbit = False\<rparr> toks
           = read_loop \<lparr>unread = rest, eofbit = False\<rparr> toks"
    using read_loop_run [OF c, of "cs @ rest" toks] trim by (simp add: ws run after)
  with g show ?thesis by (simp add: read_loop_no_empty_token)
qed

theorem C8_whitespace_run_witness:
  "getToken \<lparr>unread = ''  ]'', eofbit = False\<rparr> = ([], \<lparr>unread = '']'', eofbit = False\<rparr>)
   \<and> read_loop \<lparr>unread = ''  ]'', eofbit = False\<rparr> [''['']
     = read_loop \<lparr>unread = '']'', eofbit = False\<rparr> [''['']"
  using C8_whitespace_run_dropped [of "''  ''" "'']''" "[''['']" "[]"]
  by (simp add: reserved_def)

theorem C8_empty_token_counterexample:
  "read_loop \<lparr>unread = ''[ ]'', eofbit = False\<rparr> [] = [''['', '']'']"
  by (simp add: tokenizer_defs)


section \<open>Empty identifiers\<close>

text \<open>
  Claim C4, as the code has it. \<open>isIdent\<close> accepts the empty string, so \<open>parse\<close> accepts
  an empty token wherever it expects an identifier, that is, in each of the four states
  whose branch tests \<open>isIdent\<close>: as the section name (state 1, on to state 2), as the key
  (state 0, on to state 3), as the value (state 4, which stores the empty string under
  the key two tokens back and goes to state 0) and as the comment body (state 5, on to
  state 0), for every token vector, index, current section, line number and store.
  So after the header \<open>[x]\<close> the tokens \<open>[\<close>, \<open>""\<close>, \<open>]\<close> make the empty name the current
  section, and the tokens \<open>""\<close>, \<open>=\<close>, \<open>v\<close> assign \<open>v\<close> to the empty key. But \<open>read\<close> never
  hands such a token to \<open>parse\<close>: the token sequence it builds from no tokens contains no
  empty string.
\<close>

theorem C4_empty_identifier_tokens:
  "isIdent []
   \<and> (at toks i = Some [] \<and> state l = 1 \<longrightarrow>
        parse_body name toks i (l, m) = Inr (l\<lparr>state := 2\<rparr>, m))
   \<and> (at toks i = Some [] \<and> state l = 0 \<longrightarrow>
        parse_body name toks i (l, m) = Inr (l\<lparr>state := 3\<rparr>, m))
   \<and> (at toks i = Some [] \<and> state l = 4 \<and> at toks (i - 2) = Some k \<longrightarrow>
        parse_body name toks i (l, m) = Inr (l\<lparr>state := 0\<rparr>, assign m (curSection l) k []))
   \<and> (at toks i = Some [] \<and> state l = 5 \<longrightarrow>
        parse_body name toks i (l, m) = Inr (l\<lparr>state := 0\<rparr>, m))
   \<and> parse \<lparr>internal = Map.empty, fileName = name,
             in_fail = False, tokens = [''['', ''x'', '']'', ''['', [], '']'', ''k'', ''='', ''v'']\<rparr>
     = Inr \<lparr>internal = ['''' \<mapsto> [''k'' \<mapsto> ''v'']], fileName = name,
            in_fail = False, tokens = [''['', ''x'', '']'', ''['', [], '']'', ''k'', ''='', ''v'']\<rparr>
   \<and> parse \<lparr>internal = Map.empty, fileName = name,
             in_fail = False, tokens = [''['', ''x'', '']'', [], ''='', ''v'']\<rparr>
     = Inr \<lparr>internal = [''x'' \<mapsto> ['''' \<mapsto> ''v'']], fileName = name,
            in_fail = False, tokens = [''['', ''x'', '']'', [], ''='', ''v'']\<rparr>
   \<and> parse \<lparr>internal = Map.empty, fileName = name,
             in_fail = False, tokens = [''k'', ''='', [], '';'', []]\<rparr>
     = Inr \<lparr>internal = ['''' \<mapsto> [''k'' \<mapsto> '''']], fileName = name,
            in_fail = False, tokens = [''k'', ''='', [], '';'', []]\<rparr>
   \<and> [] \<notin> set (read_loop \<lparr>unread = input, eofbit = False\<rparr> [])"
proof (intro conjI impI)
  show "isIdent []" by (simp add: isIdent_def)
next
  assume "at toks i = Some [] \<and> state l = 1"
  then show "parse_body name toks i (l, m) = Inr (l\<lparr>state := 2\<rparr>, m)"
    by (simp add: parse_body_def isIdent_def)
next
  assume "at toks i = Some [] \<and> state l = 0"
  then show "parse_body name toks i (l, m) = Inr (l\<lparr>state := 3\<rparr>, m)"
    by (simp add: parse_body_def isIdent_def)
next
  assume "at toks i = Some [] \<and> state l = 4 \<and> at toks (i - 2) = Some k"
  then show "parse_body name toks i (l, m)
      = Inr (l\<lparr>state := 0\<rparr>, assign m (curSection l) k [])"
    by (simp add: parse_body_def isIdent_def)
next
  assume "at toks i = Some [] \<and> state l = 5"
  then show "parse_body name toks i (l, m) = Inr (l\<lparr>state := 0\<rparr>, m)"
    by (simp add: parse_body_def isIdent_def)
next
  show "parse \<lparr>internal = Map.empty, fileName = name,
             in_fail = False, tokens = [''['', ''x'', '']'', ''['', [], '']'', ''k'', ''='', ''v'']\<rparr>
     = Inr \<lparr>internal = ['''' \<mapsto> [''k'' \<mapsto> ''v'']], fileName = name,
            in_fail = False, tokens = [''['', ''x'', '']'', ''['', [], '']'', ''k'', ''='', ''v'']\<rparr>"
    by (simp add: parser_defs)
next
  show "parse \<lparr>internal = Map.empty, fileName = name,
             in_fail = False, tokens = [''['', ''x'', '']'', [], ''='', ''v'']\<rparr>
     = Inr \<lparr>internal = [''x'' \<mapsto> ['''' \<mapsto> ''v'']], fileName = name,
            in_fail = False, tokens = [''['', ''x'', '']'', [], ''='', ''v'']\<rparr>"
    by (simp add: parser_defs)
next
  show "parse \<lparr>internal = Map.empty, fileName = name,
             in_fail = False, tokens = [''k'', ''='', [], '';'', []]\<rparr>
     = Inr \<lparr>internal = ['''' \<mapsto> [''k'' \<mapsto> '''']], fileName = name,
            in_fail = False, tokens = [''k'', ''='', [], '';'', []]\<rparr>"
    by (simp add: parser_defs)
next
  show "[] \<notin> set (read_loop \<lparr>unread = input, eofbit = False\<rparr> [])"
    by (simp add: read_loop_no_empty_token)
qed

text \<open>
  The four states at the token vector \<open>[\<close>, \<open>""\<close>, \<open>]\<close>, \<open>""\<close>, \<open>=\<close>, \<open>""\<close>, \<open>;\<close>, \<open>""\<close>: the
  empty token at the indices 1, 3, 5 and 7.
\<close>

theorem C4_empty_identifier_witness:
  "at [''['', [], '']'', [], ''='', [], '';'', []] 1 = Some []
   \<and> parse_body ''config.ini'' [''['', [], '']'', [], ''='', [], '';'', []] 1
         (\<lparr>curSection = ''x'', state = 1, lineNumber = 1\<rparr>, Map.empty)
       = Inr (\<lparr>curSection = ''x'', state = 2, lineNumber = 1\<rparr>, Map.empty)
   \<and> at [''['', [], '']'', [], ''='', [], '';'', []] 3 = Some []
   \<and> parse_body ''config.ini'' [''['', [], '']'', [], ''='', [], '';'', []] 3
         (\<lparr>curSection = [], state = 0, lineNumber = 1\<rparr>, Map.empty)
       = Inr (\<lparr>curSection = [], state = 3, lineNumber = 1\<rparr>, Map.empty)
   \<and> at [''['', [], '']'', [], ''='', [], '';'', []] 5 = Some []
   \<and> at [''['', [], '']'', [], ''='', [], '';'', []] (5 - 2) = Some []
   \<and> parse_body ''config.ini'' [''['', [], '']'', [], ''='', [], '';'', []] 5
         (\<lparr>curSection = [], state = 4, lineNumber = 1\<rparr>, Map.empty)
       = Inr (\<lparr>curSection = [], state = 0, lineNumber = 1\<rparr>, ['''' \<mapsto> ['''' \<mapsto> '''']])
   \<and> at [''['', [], '']'', [], ''='', [], '';'', []] 7 = Some []
   \<and> parse_body ''config.ini'' [''['', [], '']'', [], ''='', [], '';'', []] 7
         (\<lparr>curSection = [], state = 5, lineNumber = 1\<rparr>, ['''' \<mapsto> ['''' \<mapsto> '''']])
       = Inr (\<lparr>curSection = [], state = 0, lineNumber = 1\<rparr>, ['''' \<mapsto> ['''' \<mapsto> '''']])"
proof -
  let ?toks = "[''['', [], '']'', [], ''='', [], '';'', []]"
  let ?m = "['''' \<mapsto> ['''' \<mapsto> '''']]"
  have a1: "at ?toks 1 = Some []" and a3: "at ?toks 3 = Some []"
    and a5: "at ?toks 5 = Some []" and a5k: "at ?toks (5 - 2) = Some []"
    and a7: "at ?toks 7 = Some []"
    by (simp_all add: at_def)
  have s1: "parse_body ''config.ini'' ?toks 1
         (\<lparr>curSection = ''x'', state = 1, lineNumber = 1\<rparr>, Map.empty)
       = Inr (\<lparr>curSection = ''x'', state = 2, lineNumber = 1\<rparr>, Map.empty)"
    using C4_empty_identifier_tokens [where toks = ?toks and i = 1 and m = Map.empty
        and l = "\<lparr>curSection = ''x'', state = 1, lineNumber = 1\<rparr>" and name = "''config.ini''"]
      a1 by simp
  have s0: "parse_body ''config.ini'' ?toks 3
         (\<lparr>curSection = [], state = 0, lineNumber = 1\<rparr>, Map.empty)
       = Inr (\<lparr>curSection = [], state = 3, lineNumber = 1\<rparr>, Map.empty)"
    using C4_empty_identifier_tokens [where toks = ?toks and i = 3 and m = Map.empty
        and l = "\<lparr>curSection = [], state = 0, lineNumber = 1\<rparr>" and name = "''config.ini''"]
      a3 by simp
  have s4: "parse_body ''config.ini'' ?toks 5
         (\<lparr>curSection = [], state = 4, lineNumber = 1\<rparr>, Map.empty)
       = Inr (\<lparr>curSection = [], state = 0, lineNumber = 1\<rparr>, ?m)"
    using C4_empty_identifier_tokens [where toks = ?toks and i = 5 and m = Map.empty
        and l = "\<lparr>curSection = [], state = 4, lineNumber = 1\<rparr>" and name = "''config.ini''"
        and k = "[]"]
      a5 a5k by (simp add: assign_def)
  have s5: "parse_body ''config.ini'' ?toks 7
         (\<lparr>curSection = [], state = 5, lineNumber = 1\<rparr>, ?m)
       = Inr (\<lparr>curSection = [], state = 0, lineNumber = 1\<rparr>, ?m)"
    using C4_empty_identifier_tokens [where toks = ?toks and i = 7 and m = ?m
        and l = "\<lparr>curSection = [], state = 5, lineNumber = 1\<rparr>" and name = "''config.ini''"]
      a7 by simp
  show ?thesis
    by (intro conjI a1 a3 a5 a5k a7 s1 s0 s4 s5)
qed

text \<open>
  The inputs \<open>[]\<close> and \<open>=v\<close> give the token sequences \<open>[\<close>, \<open>]\<close> and \<open>=\<close>, \<open>v\<close>; \<open>parse\<close>
  rejects the first at \<open>]\<close> and the second at \<open>=\<close>.
\<close>

theorem C4_empty_header_counterexample:
  "read (Some ''[]'') (IniParser_new ''config.ini'')
     = Inl (SyntaxError (''Syntax error on file '' @ [DQ] @ ''config.ini'' @ [DQ]
                          @ '' at line 1.'' @ [LF] @ ''...[ ->]<- ...''),
            \<lparr>internal = Map.empty, fileName = ''config.ini'', in_fail = False, tokens = [''['', '']'']\<rparr>)
   \<and> read (Some ''=v'') (IniParser_new ''config.ini'')
     = Inl (SyntaxError (''Syntax error on file '' @ [DQ] @ ''config.ini'' @ [DQ]
                          @ '' at line 1.'' @ [LF] @ ''... ->=<- v...''),
            \<lparr>internal = Map.empty, fileName = ''config.ini'', in_fail = False, tokens = [''='', ''v'']\<rparr>)"
  by (simp add: object_defs tokenizer_defs parser_defs)


section \<open>Reading again after \<open>clear\<close>\<close>

text \<open>
  Claim C2 at two inputs. \<open>clear\<close> empties the store but not the member \<open>tokens\<close>, and
  \<open>read\<close> appends to it, so the second \<open>parse\<close> runs over the tokens of both reads.
  After reading \<open>a=b\<close>, \<open>clear\<close>, and reading \<open>c=d\<close>, the store holds \<open>a\<close> as well as \<open>c\<close>.
  After reading the file \<open>k=v\<close>, newline, \<open>[s]\<close>, \<open>clear\<close>, and reading the same file
  again, the store has the additional section \<open>s\<close> with the key \<open>k\<close>.
\<close>

theorem C2_tokens_survive_clear:
  "read (Some (''a=b'' @ [LF])) (IniParser_new name)
     = Inr \<lparr>internal = ['''' \<mapsto> [''a'' \<mapsto> ''b'']], fileName = name,
            in_fail = False, tokens = [''a'', ''='', ''b'', [LF]]\<rparr>
   \<and> read (Some (''c=d'' @ [LF]))
        (clear \<lparr>internal = ['''' \<mapsto> [''a'' \<mapsto> ''b'']], fileName = name,
                in_fail = False, tokens = [''a'', ''='', ''b'', [LF]]\<rparr>)
     = Inr \<lparr>internal = ['''' \<mapsto> [''a'' \<mapsto> ''b'', ''c'' \<mapsto> ''d'']], fileName = name,
            in_fail = False, tokens = [''a'', ''='', ''b'', [LF], ''c'', ''='', ''d'', [LF]]\<rparr>
   \<and> read (Some (''k=v'' @ [LF] @ ''[s]'')) (IniParser_new name)
     = Inr \<lparr>internal = ['''' \<mapsto> [''k'' \<mapsto> ''v'']], fileName = name,
            in_fail = False, tokens = [''k'', ''='', ''v'', [LF], ''['', ''s'', '']'']\<rparr>
   \<and> read (Some (''k=v'' @ [LF] @ ''[s]''))
        (clear \<lparr>internal = ['''' \<mapsto> [''k'' \<mapsto> ''v'']], fileName = name,
                in_fail = False, tokens = [''k'', ''='', ''v'', [LF], ''['', ''s'', '']'']\<rparr>)
     = Inr \<lparr>internal = ['''' \<mapsto> [''k'' \<mapsto> ''v''], ''s'' \<mapsto> [''k'' \<mapsto> ''v'']],
            fileName = name,
            in_fail = False, tokens = [''k'', ''='', ''v'', [LF], ''['', ''s'', '']'',
                      ''k'', ''='', ''v'', [LF], ''['', ''s'', '']'']\<rparr>"
  by (simp add: object_defs tokenizer_defs parser_defs)


section \<open>The end of the input\<close>

lemma parse_loop_final_index:
  "parse_loop name toks i lm = Inr (j, lm') \<Longrightarrow> i \<le> int (length toks) \<Longrightarrow> j = int (length toks)"
proof (induction name toks i lm rule: parse_loop.induct)
  case (1 name toks i lm)
  show ?case
  proof (cases "i < int (length toks)")
    case True
    show ?thesis
    proof (cases "parse_body name toks i lm")
      case (Inl e)
      with True "1.prems" show ?thesis by (simp add: parse_loop.simps[of name toks i])
    next
      case (Inr lm2)
      with True "1.prems" have "parse_loop name toks (i + 1) lm2 = Inr (j, lm')"
        by (simp add: parse_loop.simps[of name toks i])
      with "1.IH"[OF True Inr] True show ?thesis by simp
    qed
  next
    case False
    with "1.prems" show ?thesis by (simp add: parse_loop.simps[of name toks i])
  qed
qed

lemma eof_message_past_end: "eof_message name toks (int (length toks)) line = None"
  by (simp add: eof_message_def at_def split: option.splits)

text \<open>
  When the loop ends in a state other than 0, the index is \<open>tokens.size()\<close>, and the
  message of the final check reads \<open>tokens[i]\<close> there.
\<close>

lemma parse_unfinished:
  assumes "parse_loop (fileName p) (tokens p) 0
             (\<lparr>curSection = [], state = 0, lineNumber = 1\<rparr>, internal p) = Inr (i, l, m)"
    and "state l \<noteq> 0"
  shows "parse p = Inl (OutOfBounds, p\<lparr>internal := m\<rparr>)"
proof -
  have "i = int (length (tokens p))"
    using parse_loop_final_index[OF assms(1)] by simp
  then show ?thesis
    using assms by (simp add: parse_def eof_message_past_end)
qed

text \<open>
  Claim C3 at the input \<open>k=\<close>. The tokens are \<open>k\<close> and \<open>=\<close>, the loop ends at index 2 in
  state 4, and the final check reads \<open>tokens[2]\<close> of a vector of size 2 while it builds
  its message: no SyntaxError with the last two tokens is thrown.
\<close>

theorem C3_dangling_assignment:
  "read_loop \<lparr>unread = ''k='', eofbit = False\<rparr> [] = [''k'', ''='']
   \<and> parse_loop name [''k'', ''=''] 0 (\<lparr>curSection = [], state = 0, lineNumber = 1\<rparr>, Map.empty)
     = Inr (2, \<lparr>curSection = [], state = 4, lineNumber = 1\<rparr>, Map.empty)
   \<and> at [''k'', ''=''] 2 = None
   \<and> read (Some ''k='') (IniParser_new name)
     = Inl (OutOfBounds, \<lparr>internal = Map.empty, fileName = name, in_fail = False, tokens = [''k'', ''='']\<rparr>)"
  by (simp add: object_defs tokenizer_defs parser_defs)


section \<open>Line numbers\<close>

lemma isIdent_LF: "\<not> isIdent [LF]"
  by (simp add: isIdent_def reserved_def)

lemma parse_body_lineNumber:
  "parse_body name toks i (l, m) = Inr (l', m') \<Longrightarrow>
   lineNumber l' = lineNumber l + (if at toks i = Some [LF] then 1 else 0)"
  by (auto simp: parse_body_def isIdent_LF split: option.splits if_splits)

lemma newlines_before_Suc:
  "j < length toks \<Longrightarrow>
   newlines_before toks (Suc j) = newlines_before toks j + (if toks ! j = [LF] then 1 else 0)"
  by (simp add: newlines_before_def take_Suc_conv_app_nth)

lemma parse_body_SyntaxError:
  "parse_body name toks i (l, m) = Inl (SyntaxError msg) \<Longrightarrow>
   \<exists>token. at toks i = Some token \<and> loop_message name toks i token (lineNumber l) = Some msg"
  by (auto simp: parse_body_def split: option.splits if_splits)

lemma parse_loop_SyntaxError:
  "parse_loop name toks i lm = Inl (SyntaxError msg, m') \<Longrightarrow> 0 \<le> i \<Longrightarrow>
   lineNumber (fst lm) = 1 + int (newlines_before toks (nat i)) \<Longrightarrow>
   \<exists>j<length toks. loop_message name toks (int j) (toks ! j)
                      (1 + int (newlines_before toks j)) = Some msg"
proof (induction name toks i lm rule: parse_loop.induct)
  case (1 name toks i lm)
  obtain l m where lm: "lm = (l, m)" by (cases lm)
  from "1.prems"(1) have lt: "i < int (length toks)"
    by (auto simp: parse_loop.simps[of name toks i] split: if_splits)
  then have ni: "nat i < length toks" using "1.prems"(2) by simp
  show ?case
  proof (cases "parse_body name toks i lm")
    case (Inl e)
    with lt "1.prems"(1) have e: "e = SyntaxError msg"
      by (simp add: parse_loop.simps[of name toks i])
    from parse_body_SyntaxError[OF Inl[unfolded lm e]]
    obtain token where t: "at toks i = Some token"
      and msg: "loop_message name toks i token (lineNumber l) = Some msg" by blast
    from t have "token = toks ! nat i" by (simp add: at_def split: if_splits)
    with msg "1.prems"(2,3) lm ni show ?thesis
      by (intro exI[of _ "nat i"]) simp
  next
    case (Inr lm2)
    obtain l2 m2 where lm2: "lm2 = (l2, m2)" by (cases lm2)
    from Inr lt "1.prems"(1)
    have next_loop: "parse_loop name toks (i + 1) lm2 = Inl (SyntaxError msg, m')"
      by (simp add: parse_loop.simps[of name toks i])
    have at: "at toks i = Some (toks ! nat i)" using lt "1.prems"(2) by (simp add: at_def)
    have "lineNumber l2 = lineNumber l + (if toks ! nat i = [LF] then 1 else 0)"
      using parse_body_lineNumber[OF Inr[unfolded lm lm2]] at by simp
    moreover have "nat (i + 1) = Suc (nat i)" using "1.prems"(2) by simp
    ultimately have "lineNumber (fst lm2) = 1 + int (newlines_before toks (nat (i + 1)))"
      using "1.prems"(3) ni by (simp add: lm lm2 newlines_before_Suc)
    with "1.IH"[OF lt Inr next_loop] "1.prems"(2) show ?thesis by simp
  qed
qed

lemma parse_SyntaxError:
  assumes "parse p = Inl (SyntaxError msg, p')"
  shows "\<exists>j<length (tokens p). loop_message (fileName p) (tokens p) (int j) (tokens p ! j)
                      (1 + int (newlines_before (tokens p) j)) = Some msg"
proof (cases "parse_loop (fileName p) (tokens p) 0
             (\<lparr>curSection = [], state = 0, lineNumber = 1\<rparr>, internal p)")
  case (Inl em)
  obtain e m where "em = (e, m)" by (cases em)
  with Inl assms have "parse_loop (fileName p) (tokens p) 0
             (\<lparr>curSection = [], state = 0, lineNumber = 1\<rparr>, internal p) = Inl (SyntaxError msg, m)"
    by (simp add: parse_def)
  from parse_loop_SyntaxError[OF this] show ?thesis
    by (simp add: newlines_before_def)
next
  case (Inr r)
  obtain i l m where r: "r = (i, l, m)" by (cases r)
  show ?thesis
  proof (cases "state l = 0")
    case True
    with Inr r assms show ?thesis by (simp add: parse_def)
  next
    case False
    from parse_unfinished[OF Inr[unfolded r] False] assms show ?thesis by simp
  qed
qed

text \<open>
  Claim C9. Reading the input \<open>[a\<close>, newline, with a fresh parser throws a SyntaxError
  whose message says line 1. In general the line number starts at 1; an iteration of the
  loop that consumes its token adds one to the line number exactly when the token is a
  newline, whatever the state (a blank line, the end of a line, an assignment without a
  value); and so the line number in the message of every SyntaxError that \<open>parse\<close> throws
  is one more than the number of newline tokens before the offending token.
\<close>

theorem C9_line_numbers:
  "read (Some (''[a'' @ [LF])) (IniParser_new name)
     = Inl (SyntaxError (''Syntax error on file '' @ [DQ] @ name @ [DQ]
                          @ '' at line 1.'' @ [LF] @ ''...a ->LF<- ...''),
            \<lparr>internal = Map.empty, fileName = name, in_fail = False, tokens = [''['', ''a'', [LF]]\<rparr>)
   \<and> (parse_body name toks i (l, m) = Inr (l', m') \<longrightarrow>
        lineNumber l' = lineNumber l + (if at toks i = Some [LF] then 1 else 0))
   \<and> (parse p = Inl (SyntaxError msg, p') \<longrightarrow>
        (\<exists>j<length (tokens p).
           loop_message (fileName p) (tokens p) (int j) (tokens p ! j)
             (1 + int (newlines_before (tokens p) j)) = Some msg))"
proof (intro conjI impI)
  show "read (Some (''[a'' @ [LF])) (IniParser_new name)
     = Inl (SyntaxError (''Syntax error on file '' @ [DQ] @ name @ [DQ]
                          @ '' at line 1.'' @ [LF] @ ''...a ->LF<- ...''),
            \<lparr>internal = Map.empty, fileName = name, in_fail = False, tokens = [''['', ''a'', [LF]]\<rparr>)"
    by (simp add: object_defs tokenizer_defs parser_defs)
next
  assume "parse_body name toks i (l, m) = Inr (l', m')"
  then show "lineNumber l' = lineNumber l + (if at toks i = Some [LF] then 1 else 0)"
    by (rule parse_body_lineNumber)
next
  assume "parse p = Inl (SyntaxError msg, p')"
  then show "\<exists>j<length (tokens p).
           loop_message (fileName p) (tokens p) (int j) (tokens p ! j)
             (1 + int (newlines_before (tokens p) j)) = Some msg"
    by (rule parse_SyntaxError)
qed

theorem C9_line_numbers_witness:
  "parse_body ''config.ini'' [''k'', ''='', [LF]] 2
       (\<lparr>curSection = [], state = 4, lineNumber = 1\<rparr>, Map.empty)
     = Inr (\<lparr>curSection = [], state = 0, lineNumber = 2\<rparr>, ['''' \<mapsto> [''k'' \<mapsto> '''']])
   \<and> lineNumber \<lparr>curSection = [], state = 0, lineNumber = 2\<rparr>
     = lineNumber \<lparr>curSection = [], state = 4, lineNumber = 1\<rparr>
       + (if at [''k'', ''='', [LF]] 2 = Some [LF] then 1 else 0)
   \<and> at [''k'', ''='', [LF]] 2 = Some [LF]
   \<and> parse \<lparr>internal = Map.empty, fileName = ''config.ini'', in_fail = False, tokens = [[LF], [LF], ''='']\<rparr>
     = Inl (SyntaxError (''Syntax error on file '' @ [DQ] @ ''config.ini'' @ [DQ]
                          @ '' at line 3.'' @ [LF] @ ''...'' @ [LF] @ '' ->=<- ...''),
            \<lparr>internal = Map.empty, fileName = ''config.ini'', in_fail = False, tokens = [[LF], [LF], ''='']\<rparr>)
   \<and> (\<exists>j. j < length [[LF], [LF], ''=''] \<and>
          loop_message ''config.ini'' [[LF], [LF], ''=''] (int j) ([[LF], [LF], ''=''] ! j)
               (1 + int (newlines_before [[LF], [LF], ''=''] j))
             = Some (''Syntax error on file '' @ [DQ] @ ''config.ini'' @ [DQ]
                          @ '' at line 3.'' @ [LF] @ ''...'' @ [LF] @ '' ->=<- ...''))"
proof -
  let ?toks = "[[LF], [LF], ''='']"
  let ?p = "\<lparr>internal = Map.empty, fileName = ''config.ini'', in_fail = False, tokens = ?toks\<rparr>"
  let ?msg = "''Syntax error on file '' @ [DQ] @ ''config.ini'' @ [DQ]
                          @ '' at line 3.'' @ [LF] @ ''...'' @ [LF] @ '' ->=<- ...''"
  let ?l = "\<lparr>curSection = [], state = 4, lineNumber = 1\<rparr>"
  let ?l' = "\<lparr>curSection = [], state = 0, lineNumber = 2\<rparr>"
  have body: "parse_body ''config.ini'' [''k'', ''='', [LF]] 2 (?l, Map.empty)
     = Inr (?l', ['''' \<mapsto> [''k'' \<mapsto> '''']])"
    by (simp add: parser_defs)
  have newline: "at [''k'', ''='', [LF]] 2 = Some [LF]"
    by (simp add: at_def)
  have thrown: "parse ?p = Inl (SyntaxError ?msg, ?p)"
    by (simp add: parser_defs)
  note general = C9_line_numbers [where toks = "[''k'', ''='', [LF]]" and i = 2 and l = ?l
      and m = Map.empty and l' = ?l' and m' = "['''' \<mapsto> [''k'' \<mapsto> '''']]"
      and name = "''config.ini''" and p = ?p and msg = ?msg and p' = ?p]
  have line: "lineNumber ?l' = lineNumber ?l
       + (if at [''k'', ''='', [LF]] 2 = Some [LF] then 1 else 0)"
    using general body by blast
  have "\<exists>j<length (tokens ?p).
           loop_message (fileName ?p) (tokens ?p) (int j) (tokens ?p ! j)
             (1 + int (newlines_before (tokens ?p) j)) = Some ?msg"
    using general thrown by blast
  then have offending: "\<exists>j. j < length ?toks \<and>
          loop_message ''config.ini'' ?toks (int j) (?toks ! j)
               (1 + int (newlines_before ?toks j)) = Some ?msg"
    by (simp only: IniParser.simps)
  show ?thesis
    by (rule conjI [OF body conjI [OF line conjI [OF newline conjI [OF thrown offending]]]])
qed


section \<open>The transitions of the state machine\<close>
















section \<open>Lines of the grammar\<close>









section \<open>The store and the last assignment\<close>









end
